theory Spec2Isabelle
  imports Main "HOL-Library.Word" "HOL-Library.Char_ord" "HOL-Library.List_Lexorder"
begin

unbundle bit_operations_syntax

section \<open>Token model\<close>

text \<open>
  The tokens of \<^verbatim>\<open>App.tsx\<close>: a \<^verbatim>\<open>VarToken\<close> carries one of the five names of
  \<^verbatim>\<open>VARS\<close>, an \<^verbatim>\<open>OpToken\<close> one of the three symbols of \<^verbatim>\<open>OPS\<close>
  (\<^verbatim>\<open>&&\<close>, \<^verbatim>\<open>||\<close>, \<^verbatim>\<open>!\<close>), and a \<^verbatim>\<open>ParenToken\<close> has no payload.
\<close>

datatype var_name = A | B | C | TRUE | FALSE

datatype op_sym = OpAnd | OpOr | OpNot

datatype token = VAR var_name | OP op_sym | LPAREN | RPAREN

text \<open>The string a variable name stands for in the source (used by the default sort).\<close>

fun name_string :: "var_name \<Rightarrow> string" where
  "name_string A = ''A''"
| "name_string B = ''B''"
| "name_string C = ''C''"
| "name_string TRUE = ''TRUE''"
| "name_string FALSE = ''FALSE''"

text \<open>
  Every \<^verbatim>\<open>throw new Error(msg)\<close> of the engine, one constructor per message:
  \<^item> \<open>MismatchedParentheses\<close>: "Mismatched parentheses" (both sites of \<^verbatim>\<open>toRPN\<close>);
  \<^item> \<open>InvalidUnaryPlacement\<close>: "Invalid unary operator placement";
  \<^item> \<open>InvalidAndPlacement\<close>: "Invalid AND placement";
  \<^item> \<open>InvalidOrPlacement\<close>: "Invalid OR placement";
  \<^item> \<open>UnknownOperatorMsg\<close>: "Unknown operator";
  \<^item> \<open>IncompleteExpressionMsg\<close>: "Incomplete expression";
  \<^item> \<open>EmptyExpressionMsg\<close>: "Empty expression";
  \<^item> \<open>MissingOperatorBetweenOperands\<close>: "Missing operator between operands";
  \<^item> \<open>MissingOperatorAfterRParen\<close>: "Missing operator between ) and next token";
  \<^item> \<open>BinaryNeedsOperands\<close>: "Binary operator needs operands on both sides";
  \<^item> \<open>BinaryAfterOperatorOrLParen\<close>: "Binary operator cannot follow an operator or (";
  \<^item> \<open>NotBeforeBinary\<close>: "! must be followed by an operand or (".
\<close>

datatype error =
    MismatchedParentheses
  | InvalidUnaryPlacement
  | InvalidAndPlacement
  | InvalidOrPlacement
  | UnknownOperatorMsg
  | IncompleteExpressionMsg
  | EmptyExpressionMsg
  | MissingOperatorBetweenOperands
  | MissingOperatorAfterRParen
  | BinaryNeedsOperands
  | BinaryAfterOperatorOrLParen
  | NotBeforeBinary

text \<open>
  The specification names seven error kinds (section 7); the source only has
  messages. \<open>kind\<close> files each message under the kind whose name its text
  carries: the two "Missing operator ..." messages under MissingOperator,
  "Incomplete expression" under IncompleteExpression, and the evaluator's three
  "Invalid ... placement" messages under InvalidOperatorPlacement, with the
  validator's two messages about where an operator stands. "Binary operator needs
  operands on both sides" is the dangling operator.
\<close>

datatype error_kind =
    EmptyExpression
  | MissingOperator
  | DanglingOperator
  | InvalidOperatorPlacement
  | MismatchedParenthesesKind
  | IncompleteExpression
  | UnknownOperator

fun kind :: "error \<Rightarrow> error_kind" where
  "kind EmptyExpressionMsg = EmptyExpression"
| "kind MissingOperatorBetweenOperands = MissingOperator"
| "kind MissingOperatorAfterRParen = MissingOperator"
| "kind BinaryNeedsOperands = DanglingOperator"
| "kind BinaryAfterOperatorOrLParen = InvalidOperatorPlacement"
| "kind NotBeforeBinary = InvalidOperatorPlacement"
| "kind MismatchedParentheses = MismatchedParenthesesKind"
| "kind InvalidUnaryPlacement = InvalidOperatorPlacement"
| "kind InvalidAndPlacement = InvalidOperatorPlacement"
| "kind InvalidOrPlacement = InvalidOperatorPlacement"
| "kind IncompleteExpressionMsg = IncompleteExpression"
| "kind UnknownOperatorMsg = UnknownOperator"

text \<open>
  \<^verbatim>\<open>isOperator\<close> and \<^verbatim>\<open>isPrefixUnary\<close> take a possibly undefined token
  (\<^verbatim>\<open>t?: Token\<close>); \<open>None\<close> is \<^verbatim>\<open>undefined\<close>. The tests on \<^verbatim>\<open>next?.type\<close>
  are \<open>is_VAR\<close> and \<open>is_LPAREN\<close>.
\<close>

fun isOperator :: "token option \<Rightarrow> bool" where
  "isOperator (Some (OP v)) = True"
| "isOperator t = False"

fun isPrefixUnary :: "token option \<Rightarrow> bool" where
  "isPrefixUnary (Some (OP v)) = (v = OpNot)"
| "isPrefixUnary t = False"

fun is_VAR :: "token option \<Rightarrow> bool" where
  "is_VAR (Some (VAR v)) = True"
| "is_VAR t = False"

fun is_LPAREN :: "token option \<Rightarrow> bool" where
  "is_LPAREN (Some LPAREN) = True"
| "is_LPAREN t = False"

text \<open>\<^verbatim>\<open>t.type === "OP" && t.value !== "!"\<close>\<close>

fun is_binary_OP :: "token option \<Rightarrow> bool" where
  "is_binary_OP (Some (OP v)) = (v \<noteq> OpNot)"
| "is_binary_OP t = False"

text \<open>Reading a JavaScript array at any integer index: \<^verbatim>\<open>undefined\<close> out of range.\<close>

definition at_index :: "'a list \<Rightarrow> int \<Rightarrow> 'a option" where
  "at_index xs i = (if 0 \<le> i \<and> i < int (length xs) then Some (xs ! nat i) else None)"

section \<open>Converter: shunting-yard to postfix\<close>

fun precedence :: "op_sym \<Rightarrow> nat" where
  "precedence OpNot = 3"
| "precedence OpAnd = 2"
| "precedence OpOr = 1"

definition rightAssociative :: "op_sym set" where
  "rightAssociative = {OpNot}"

text \<open>
  The operator stack is a list whose head is the top of the stack
  (\<^verbatim>\<open>stack[stack.length - 1]\<close>); the output grows at its end.

  The inner \<^verbatim>\<open>while\<close> of the operator branch: \<^verbatim>\<open>o2\<close> is the \<^verbatim>\<open>value\<close> of the top
  entry. A left-parenthesis marker has no \<^verbatim>\<open>value\<close>, so \<^verbatim>\<open>o2\<close> is undefined and the
  loop breaks; it also ends when the stack is empty.
\<close>

fun pop_operators :: "op_sym \<Rightarrow> token list \<Rightarrow> token list \<Rightarrow> token list \<times> token list" where
  "pop_operators o1 (OP o2 # stack) output =
     (if (o1 \<in> rightAssociative \<and> precedence o1 < precedence o2) \<or>
         (o1 \<notin> rightAssociative \<and> precedence o1 \<le> precedence o2)
      then pop_operators o1 stack (output @ [OP o2])
      else (OP o2 # stack, output))"
| "pop_operators o1 stack output = (stack, output)"

text \<open>
  The \<^verbatim>\<open>while\<close> of the right-parenthesis branch: pop to the output until a
  left-parenthesis marker is popped; \<open>None\<close> is \<^verbatim>\<open>foundLeft === false\<close>.
\<close>

fun pop_until_lparen :: "token list \<Rightarrow> token list \<Rightarrow> (token list \<times> token list) option" where
  "pop_until_lparen [] output = None"
| "pop_until_lparen (LPAREN # stack) output = Some (stack, output)"
| "pop_until_lparen (x # stack) output = pop_until_lparen stack (output @ [x])"

text \<open>The body of the \<^verbatim>\<open>for\<close> loop of \<^verbatim>\<open>toRPN\<close>, on the pair (stack, output).\<close>

fun toRPN_step :: "token \<Rightarrow> token list \<times> token list \<Rightarrow> error + token list \<times> token list" where
  "toRPN_step (VAR v) (stack, output) = Inr (stack, output @ [VAR v])"
| "toRPN_step (OP o1) (stack, output) =
     (case pop_operators o1 stack output of
        (stack', output') \<Rightarrow> Inr (OP o1 # stack', output'))"
| "toRPN_step LPAREN (stack, output) = Inr (LPAREN # stack, output)"
| "toRPN_step RPAREN (stack, output) =
     (case pop_until_lparen stack output of
        None \<Rightarrow> Inl MismatchedParentheses
      | Some s \<Rightarrow> Inr s)"

fun toRPN_scan :: "token list \<Rightarrow> token list \<times> token list \<Rightarrow> error + token list \<times> token list" where
  "toRPN_scan [] s = Inr s"
| "toRPN_scan (t # ts) s =
     (case toRPN_step t s of Inl e \<Rightarrow> Inl e | Inr s' \<Rightarrow> toRPN_scan ts s')"

text \<open>The final \<^verbatim>\<open>while (stack.length)\<close>: a remaining marker is an error.\<close>

fun toRPN_drain :: "token list \<Rightarrow> token list \<Rightarrow> error + token list" where
  "toRPN_drain [] output = Inr output"
| "toRPN_drain (LPAREN # stack) output = Inl MismatchedParentheses"
| "toRPN_drain (x # stack) output = toRPN_drain stack (output @ [x])"

definition toRPN :: "token list \<Rightarrow> error + token list" where
  "toRPN tokens =
     (case toRPN_scan tokens ([], []) of
        Inl e \<Rightarrow> Inl e
      | Inr (stack, output) \<Rightarrow> toRPN_drain stack output)"

section \<open>Evaluator: the postfix stack machine\<close>

type_synonym env = "var_name \<rightharpoonup> bool"

text \<open>\<^verbatim>\<open>Boolean(env[name])\<close>: a missing key reads \<^verbatim>\<open>undefined\<close>, which is false.\<close>

definition lookup :: "env \<Rightarrow> var_name \<Rightarrow> bool" where
  "lookup env v = (case env v of Some b \<Rightarrow> b | None \<Rightarrow> False)"

text \<open>
  The value stack \<^verbatim>\<open>st\<close> is a list whose head is the top. A token that is neither a
  variable nor an operator has no \<^verbatim>\<open>value\<close> and falls to the last \<^verbatim>\<open>else\<close>.
\<close>

fun evalRPN_loop :: "token list \<Rightarrow> bool list \<Rightarrow> env \<Rightarrow> error + bool" where
  "evalRPN_loop [] st env =
     (case st of [v] \<Rightarrow> Inr v | _ \<Rightarrow> Inl IncompleteExpressionMsg)"
| "evalRPN_loop (VAR v # rpn) st env =
     (if v = TRUE then evalRPN_loop rpn (True # st) env
      else if v = FALSE then evalRPN_loop rpn (False # st) env
      else evalRPN_loop rpn (lookup env v # st) env)"
| "evalRPN_loop (OP OpNot # rpn) st env =
     (case st of
        [] \<Rightarrow> Inl InvalidUnaryPlacement
      | v # st' \<Rightarrow> evalRPN_loop rpn ((\<not> v) # st') env)"
| "evalRPN_loop (OP OpAnd # rpn) st env =
     (case st of
        b # a # st' \<Rightarrow> evalRPN_loop rpn ((a \<and> b) # st') env
      | _ \<Rightarrow> Inl InvalidAndPlacement)"
| "evalRPN_loop (OP OpOr # rpn) st env =
     (case st of
        b # a # st' \<Rightarrow> evalRPN_loop rpn ((a \<or> b) # st') env
      | _ \<Rightarrow> Inl InvalidOrPlacement)"
| "evalRPN_loop (t # rpn) st env = Inl UnknownOperatorMsg"

definition evalRPN :: "token list \<Rightarrow> env \<Rightarrow> error + bool" where
  "evalRPN rpn env = evalRPN_loop rpn [] env"

section \<open>Validator and the pipeline\<close>

text \<open>The five checks of the loop body of \<^verbatim>\<open>safeEvaluate\<close> at index \<open>i\<close>, in order.\<close>

definition check_at :: "token list \<Rightarrow> nat \<Rightarrow> error option" where
  "check_at tokens i =
     (let t = at_index tokens (int i);
          prev = at_index tokens (int i - 1);
          next = at_index tokens (int i + 1)
      in if is_VAR t \<and> (is_VAR next \<or> is_LPAREN next) then Some MissingOperatorBetweenOperands
         else if t = Some RPAREN \<and> (is_VAR next \<or> is_LPAREN next) then Some MissingOperatorAfterRParen
         else if is_binary_OP t \<and> (prev = None \<or> next = None) then Some BinaryNeedsOperands
         else if is_binary_OP t \<and> (isOperator prev \<or> is_LPAREN prev) then Some BinaryAfterOperatorOrLParen
         else if isPrefixUnary t \<and> is_binary_OP next then Some NotBeforeBinary
         else None)"

function validate_loop :: "token list \<Rightarrow> nat \<Rightarrow> error option" where
  "validate_loop tokens i =
     (if i < length tokens
      then (case check_at tokens i of Some e \<Rightarrow> Some e | None \<Rightarrow> validate_loop tokens (i + 1))
      else None)"
  by pat_completeness auto
termination
  by (relation "measure (\<lambda>(tokens, i). length tokens - i)") auto

declare validate_loop.simps [simp del]

definition validate :: "token list \<Rightarrow> error option" where
  "validate tokens = (if tokens = [] then Some EmptyExpressionMsg else validate_loop tokens 0)"

definition safeEvaluate :: "token list \<Rightarrow> env \<Rightarrow> error + bool" where
  "safeEvaluate tokens env =
     (case validate tokens of
        Some e \<Rightarrow> Inl e
      | None \<Rightarrow> (case toRPN tokens of Inl e \<Rightarrow> Inl e | Inr rpn \<Rightarrow> evalRPN rpn env))"

subsection \<open>The missing-operator checks\<close>

text \<open>The validator's error is one of the two "Missing operator ..." messages.\<close>

definition reports_MissingOperator :: "token list \<Rightarrow> bool" where
  "reports_MissingOperator tokens =
     (case validate tokens of None \<Rightarrow> False | Some e \<Rightarrow> kind e = MissingOperator)"

text \<open>
  The condition of the first two checks of the loop body at index \<open>i\<close>: the token is
  a variable or a right parenthesis, and the next one is a variable or a left
  parenthesis.
\<close>

definition missing_operator_at :: "token list \<Rightarrow> nat \<Rightarrow> bool" where
  "missing_operator_at tokens i =
     ((is_VAR (at_index tokens (int i)) \<or> at_index tokens (int i) = Some RPAREN) \<and>
      (is_VAR (at_index tokens (int i + 1)) \<or> is_LPAREN (at_index tokens (int i + 1))))"

text \<open>
  The adjacency as the specification words it (section 4.1): a variable, a left
  parenthesis or a right parenthesis, immediately followed by a variable or a left
  parenthesis.
\<close>

definition spec_missing_operator_at :: "token list \<Rightarrow> nat \<Rightarrow> bool" where
  "spec_missing_operator_at tokens i =
     ((is_VAR (at_index tokens (int i)) \<or> is_LPAREN (at_index tokens (int i))
         \<or> at_index tokens (int i) = Some RPAREN) \<and>
      (is_VAR (at_index tokens (int i + 1)) \<or> is_LPAREN (at_index tokens (int i + 1))))"

section \<open>Truth-table enumerator\<close>

text \<open>
  \<^verbatim>\<open>usedVars\<close>: a \<^verbatim>\<open>Set\<close> keeps its elements in insertion order without
  duplicates; \<^verbatim>\<open>Array.from(s).sort()\<close> sorts them as strings.
\<close>

definition set_add :: "'a list \<Rightarrow> 'a \<Rightarrow> 'a list" where
  "set_add s v = (if v \<in> set s then s else s @ [v])"

definition usedVars :: "token list \<Rightarrow> var_name list" where
  "usedVars tokens =
     sort_key name_string
       (fold (\<lambda>t s. case t of
                       VAR v \<Rightarrow> if v \<in> set [A, B, C] then set_add s v else s
                     | _ \<Rightarrow> s)
          tokens [])"

text \<open>
  JavaScript's \<^verbatim>\<open><<\<close>, \<^verbatim>\<open>>>\<close> and \<^verbatim>\<open>&\<close> work on 32-bit signed integers; the
  shift count is taken modulo 32.
\<close>

definition js_shl :: "int \<Rightarrow> nat \<Rightarrow> int" where
  "js_shl x n = sint (push_bit (n mod 32) (word_of_int x :: 32 word))"

definition js_sar :: "int \<Rightarrow> nat \<Rightarrow> int" where
  "js_sar x n = sint (signed_drop_bit (n mod 32) (word_of_int x :: 32 word))"

definition js_and :: "int \<Rightarrow> int \<Rightarrow> int" where
  "js_and x y = sint ((word_of_int x :: 32 word) AND word_of_int y)"

text \<open>
  The assignment of one mask (\<open>msk\<close> here): all three names start false, then
  \<^verbatim>\<open>usedVars.forEach((v, i) => { assignment[v] = Boolean((mask >> (n - 1 - i)) & 1); })\<close>.
  The index \<open>i\<close> is below \<open>n\<close>, so \<open>n - 1 - i\<close> is never negative.
\<close>

definition build_assignment :: "var_name list \<Rightarrow> nat \<Rightarrow> env" where
  "build_assignment vars msk =
     (let n = length vars
      in fold (\<lambda>(i, v) assignment. assignment(v \<mapsto> js_and (js_sar (int msk) (n - 1 - i)) 1 \<noteq> 0))
           (enumerate 0 vars) [A \<mapsto> False, B \<mapsto> False, C \<mapsto> False])"

text \<open>
  A row \<^verbatim>\<open>{ ...assignment, RESULT: val }\<close>; the cell is the boolean or the dash
  the \<^verbatim>\<open>catch\<close> branch stores.
\<close>

datatype cell = Val bool | Dash

record row =
  assignment :: env
  RESULT :: cell

function truthTable_loop ::
  "token list \<Rightarrow> var_name list \<Rightarrow> nat \<Rightarrow> int \<Rightarrow> row list \<Rightarrow> row list" where
  "truthTable_loop tokens vars msk totl rows =
     (if int msk < totl
      then (case safeEvaluate tokens (build_assignment vars msk) of
              Inr val \<Rightarrow>
                truthTable_loop tokens vars (msk + 1) totl
                  (rows @ [\<lparr>assignment = build_assignment vars msk, RESULT = Val val\<rparr>])
            | Inl e \<Rightarrow>
                truthTable_loop tokens vars (msk + 1) totl
                  (rows @ [\<lparr>assignment = build_assignment vars msk, RESULT = Dash\<rparr>]))
      else rows)"
  by pat_completeness auto
termination
  by (relation "measure (\<lambda>(tokens, vars, msk, totl, rows). nat totl - msk)") auto

declare truthTable_loop.simps [simp del]

text \<open>
  \<^verbatim>\<open>if (!showTable || usedVars.length === 0) return []\<close>, then the loop over
  \<^verbatim>\<open>mask\<close> from 0 below \<^verbatim>\<open>1 << n\<close>.
\<close>

definition truthTable :: "bool \<Rightarrow> token list \<Rightarrow> row list" where
  "truthTable showTable tokens =
     (let vars = usedVars tokens
      in if \<not> showTable then []
         else if length vars = 0 then []
         else truthTable_loop tokens vars 0 (js_shl 1 (length vars)) [])"

text \<open>
  The row the loop body appends for one mask: the assignment, and the boolean of
  the \<^verbatim>\<open>try\<close> branch or the dash of the \<^verbatim>\<open>catch\<close> branch.
\<close>

definition result_cell :: "error + bool \<Rightarrow> cell" where
  "result_cell r = (case r of Inr val \<Rightarrow> Val val | Inl e \<Rightarrow> Dash)"

definition table_row :: "token list \<Rightarrow> var_name list \<Rightarrow> nat \<Rightarrow> row" where
  "table_row tokens vars msk =
     \<lparr>assignment = build_assignment vars msk,
      RESULT = result_cell (safeEvaluate tokens (build_assignment vars msk))\<rparr>"

section \<open>Evaluating the pipeline on concrete sequences\<close>

lemmas pipeline_defs =
  safeEvaluate_def validate_def validate_loop.simps check_at_def at_index_def
  toRPN_def evalRPN_def rightAssociative_def lookup_def

text \<open>
  C3: for every environment, \<open>A || B && C\<close> evaluates to the same result as
  \<open>A || (B && C)\<close>: both succeed with \<open>A \<or> (B \<and> C)\<close>, and the converter puts the
  conjunction before the disjunction in the postfix sequence.
\<close>

theorem and_binds_tighter_than_or:
  "safeEvaluate [VAR A, OP OpOr, VAR B, OP OpAnd, VAR C] env =
     safeEvaluate [VAR A, OP OpOr, LPAREN, VAR B, OP OpAnd, VAR C, RPAREN] env
   \<and> safeEvaluate [VAR A, OP OpOr, VAR B, OP OpAnd, VAR C] env =
     Inr (lookup env A \<or> (lookup env B \<and> lookup env C))
   \<and> toRPN [VAR A, OP OpOr, VAR B, OP OpAnd, VAR C] =
     Inr [VAR A, VAR B, VAR C, OP OpAnd, OP OpOr]"
  by (simp add: pipeline_defs)

text \<open>
  C8: double negation. Under an environment binding \<open>A\<close> to \<open>x\<close>, the sequence
  \<open>! ! A\<close> passes the validator and the converter and evaluates to \<open>x\<close>; the second
  \<open>!\<close> does not pop the first (right associativity), so the postfix form is
  \<open>A ! !\<close>.
\<close>

theorem double_negation:
  "safeEvaluate [OP OpNot, OP OpNot, VAR A] (env(A \<mapsto> x)) = Inr x
   \<and> toRPN [OP OpNot, OP OpNot, VAR A] = Inr [VAR A, OP OpNot, OP OpNot]"
  by (simp add: pipeline_defs)

text \<open>
  C10: the empty group \<open>( )\<close>. The validator raises nothing, the converter
  succeeds with the empty postfix sequence, and the pipeline fails in the
  evaluator with "Incomplete expression", for every environment.
\<close>

theorem empty_group_fails_in_evaluator:
  "validate [LPAREN, RPAREN] = None
   \<and> toRPN [LPAREN, RPAREN] = Inr []
   \<and> evalRPN [] env = Inl IncompleteExpressionMsg
   \<and> safeEvaluate [LPAREN, RPAREN] env = Inl IncompleteExpressionMsg
   \<and> kind IncompleteExpressionMsg = IncompleteExpression"
  by (simp add: pipeline_defs)

section \<open>The evaluator's stack discipline\<close>

text \<open>
  C4, as the code has it: on \<open>!\<close> the evaluator fails when the stack holds
  fewer than one value and otherwise continues with the negated top; on \<open>&&\<close>
  and \<open>||\<close> it fails when the stack holds fewer than two values and otherwise
  continues with the combination of the two topmost values. Each of the three fails
  with its own message ("Invalid unary operator placement", "Invalid AND placement",
  "Invalid OR placement"), none of which is "Incomplete expression". At the end of
  the sequence it returns the value when exactly one remains and fails with
  "Incomplete expression" otherwise.
\<close>

theorem evalRPN_stack_requirements:
  "evalRPN_loop (OP OpNot # rpn) st env =
     (if length st < 1 then Inl InvalidUnaryPlacement
      else evalRPN_loop rpn ((\<not> hd st) # tl st) env)
   \<and> evalRPN_loop (OP OpAnd # rpn) st env =
     (if length st < 2 then Inl InvalidAndPlacement
      else evalRPN_loop rpn ((hd (tl st) \<and> hd st) # tl (tl st)) env)
   \<and> evalRPN_loop (OP OpOr # rpn) st env =
     (if length st < 2 then Inl InvalidOrPlacement
      else evalRPN_loop rpn ((hd (tl st) \<or> hd st) # tl (tl st)) env)
   \<and> evalRPN_loop [] st env =
     (if length st = 1 then Inr (hd st) else Inl IncompleteExpressionMsg)
   \<and> InvalidUnaryPlacement \<noteq> IncompleteExpressionMsg
   \<and> InvalidAndPlacement \<noteq> IncompleteExpressionMsg
   \<and> InvalidOrPlacement \<noteq> IncompleteExpressionMsg
   \<and> kind IncompleteExpressionMsg = IncompleteExpression"
  by (cases st; cases "tl st") auto

text \<open>
  C4 as stated fails: the lone operator \<open>!\<close> passes the validator and the
  converter, and the evaluator fails on the empty stack with "Invalid unary operator
  placement", not with "Incomplete expression"; \<open>A &&\<close> and \<open>A ||\<close> in
  postfix form fail with "Invalid AND placement" and "Invalid OR placement".
\<close>

theorem evalRPN_stack_requirements_counterexample:
  "safeEvaluate [OP OpNot] Map.empty = Inl InvalidUnaryPlacement
   \<and> safeEvaluate [OP OpNot] Map.empty \<noteq> Inl IncompleteExpressionMsg
   \<and> evalRPN [OP OpNot] Map.empty = Inl InvalidUnaryPlacement
   \<and> evalRPN [VAR A, OP OpAnd] Map.empty = Inl InvalidAndPlacement
   \<and> evalRPN [VAR A, OP OpOr] Map.empty = Inl InvalidOrPlacement
   \<and> kind InvalidUnaryPlacement \<noteq> IncompleteExpression"
  by (simp add: pipeline_defs)

section \<open>Operands and the environment\<close>



section \<open>Where the converter fails\<close>

lemma pop_until_lparen_None:
  "pop_until_lparen stack out = None \<longleftrightarrow> LPAREN \<notin> set stack"
  by (induction stack out rule: pop_until_lparen.induct) auto

lemma toRPN_drain_Inl:
  "toRPN_drain stack out = Inl e \<longleftrightarrow> e = MismatchedParentheses \<and> LPAREN \<in> set stack"
  by (induction stack out rule: toRPN_drain.induct) auto

lemma toRPN_step_Inl:
  "toRPN_step t (stack, out) = Inl e \<longleftrightarrow>
     e = MismatchedParentheses \<and> t = RPAREN \<and> LPAREN \<notin> set stack"
  using pop_until_lparen_None[of stack out]
  by (cases t) (auto split: prod.splits option.splits)

lemma toRPN_scan_Inl:
  "toRPN_scan ts s = Inl e \<longleftrightarrow>
     e = MismatchedParentheses \<and>
     (\<exists>pre post stack out. ts = pre @ RPAREN # post \<and> toRPN_scan pre s = Inr (stack, out)
        \<and> LPAREN \<notin> set stack)"
proof (induction ts arbitrary: s)
  case Nil
  then show ?case by simp
next
  case (Cons t ts)
  obtain stack0 out0 where s: "s = (stack0, out0)" by (cases s)
  show ?case
  proof (cases "toRPN_step t s")
    case (Inl e')
    then have e': "e' = MismatchedParentheses" "t = RPAREN" "LPAREN \<notin> set stack0"
      using toRPN_step_Inl[of t stack0 out0 e'] s by auto
    have "\<exists>pre post stack out. t # ts = pre @ RPAREN # post \<and> toRPN_scan pre s = Inr (stack, out)
        \<and> LPAREN \<notin> set stack"
      using e' s by (intro exI[of _ "[]"] exI[of _ ts] exI[of _ stack0] exI[of _ out0]) simp
    then show ?thesis using Inl e' by auto
  next
    case (Inr s')
    have "(\<exists>pre post stack out. t # ts = pre @ RPAREN # post \<and> toRPN_scan pre s = Inr (stack, out)
        \<and> LPAREN \<notin> set stack) \<longleftrightarrow>
      (\<exists>pre post stack out. ts = pre @ RPAREN # post \<and> toRPN_scan pre s' = Inr (stack, out)
        \<and> LPAREN \<notin> set stack)" (is "?L \<longleftrightarrow> ?R")
    proof
      assume ?L
      then obtain pre post stack out where
        h: "t # ts = pre @ RPAREN # post" "toRPN_scan pre s = Inr (stack, out)" "LPAREN \<notin> set stack"
        by blast
      show ?R
      proof (cases pre)
        case Nil
        then have "t = RPAREN" "s = (stack, out)" using h by auto
        then have "toRPN_step t s = Inl MismatchedParentheses"
          using h(3) toRPN_step_Inl[of RPAREN stack out MismatchedParentheses] by simp
        then show ?thesis using Inr by simp
      next
        case (Cons p pre')
        then have "p = t" "ts = pre' @ RPAREN # post" using h(1) by auto
        moreover have "toRPN_scan pre' s' = Inr (stack, out)"
          using h(2) Cons \<open>p = t\<close> Inr by simp
        ultimately show ?thesis using h(3) by blast
      qed
    next
      assume ?R
      then obtain pre post stack out where
        h: "ts = pre @ RPAREN # post" "toRPN_scan pre s' = Inr (stack, out)" "LPAREN \<notin> set stack"
        by blast
      have "t # ts = (t # pre) @ RPAREN # post" using h(1) by simp
      moreover have "toRPN_scan (t # pre) s = Inr (stack, out)" using h(2) Inr by simp
      ultimately show ?L using h(3) by blast
    qed
    then show ?thesis using Inr Cons.IH[of s'] by simp
  qed
qed

text \<open>
  C5: the converter fails with "Mismatched parentheses" exactly when either some
  right parenthesis is reached with no left-parenthesis marker on the stack (the scan
  of the tokens before it succeeded, and popping empties the stack without finding
  one), or the scan succeeds and a left-parenthesis marker is still on the stack when
  it is drained. The converter has no other failure, and \<open>( A\<close> fails this way.
\<close>

theorem toRPN_mismatched_iff:
  "(toRPN tokens = Inl MismatchedParentheses \<longleftrightarrow>
      (\<exists>pre post stack out. tokens = pre @ RPAREN # post
          \<and> toRPN_scan pre ([], []) = Inr (stack, out) \<and> LPAREN \<notin> set stack)
      \<or> (\<exists>stack out. toRPN_scan tokens ([], []) = Inr (stack, out) \<and> LPAREN \<in> set stack))
   \<and> ((\<exists>rpn. toRPN tokens = Inr rpn) \<or> toRPN tokens = Inl MismatchedParentheses)
   \<and> toRPN [LPAREN, VAR A] = Inl MismatchedParentheses"
proof (intro conjI)
  show "toRPN tokens = Inl MismatchedParentheses \<longleftrightarrow>
      (\<exists>pre post stack out. tokens = pre @ RPAREN # post
          \<and> toRPN_scan pre ([], []) = Inr (stack, out) \<and> LPAREN \<notin> set stack)
      \<or> (\<exists>stack out. toRPN_scan tokens ([], []) = Inr (stack, out) \<and> LPAREN \<in> set stack)"
  proof (cases "toRPN_scan tokens ([], [])")
    case (Inl e)
    then show ?thesis
      using toRPN_scan_Inl[of tokens "([], [])" e] by (simp add: toRPN_def)
  next
    case (Inr s)
    then have "\<not> (\<exists>pre post stack out. tokens = pre @ RPAREN # post
          \<and> toRPN_scan pre ([], []) = Inr (stack, out) \<and> LPAREN \<notin> set stack)"
      using toRPN_scan_Inl[of tokens "([], [])" MismatchedParentheses] by simp
    moreover have "toRPN tokens = Inl MismatchedParentheses \<longleftrightarrow>
        (\<exists>stack out. toRPN_scan tokens ([], []) = Inr (stack, out) \<and> LPAREN \<in> set stack)"
      using Inr by (cases s) (simp add: toRPN_def toRPN_drain_Inl)
    ultimately show ?thesis by blast
  qed
  show "(\<exists>rpn. toRPN tokens = Inr rpn) \<or> toRPN tokens = Inl MismatchedParentheses"
  proof (cases "toRPN tokens")
    case (Inl e)
    then have "e = MismatchedParentheses"
      using toRPN_scan_Inl[of tokens "([], [])" e]
      by (auto simp: toRPN_def toRPN_drain_Inl split: sum.splits prod.splits)
    then show ?thesis using Inl by simp
  next
    case (Inr rpn)
    then show ?thesis by simp
  qed
  show "toRPN [LPAREN, VAR A] = Inl MismatchedParentheses"
    by (simp add: toRPN_def)
qed

section \<open>When the validator reports a missing operator\<close>

lemma validate_loop_Some:
  "validate_loop tokens i = Some e \<longleftrightarrow>
     (\<exists>k. i \<le> k \<and> k < length tokens \<and> check_at tokens k = Some e
        \<and> (\<forall>j. i \<le> j \<and> j < k \<longrightarrow> check_at tokens j = None))"
proof (induction tokens i rule: validate_loop.induct)
  case (1 tokens i)
  show ?case
  proof (cases "i < length tokens")
    case False
    then show ?thesis by (subst validate_loop.simps) auto
  next
    case True
    show ?thesis
    proof (cases "check_at tokens i")
      case (Some e')
      have "(\<exists>k. i \<le> k \<and> k < length tokens \<and> check_at tokens k = Some e
        \<and> (\<forall>j. i \<le> j \<and> j < k \<longrightarrow> check_at tokens j = None)) \<longleftrightarrow> e' = e"
      proof
        assume "\<exists>k. i \<le> k \<and> k < length tokens \<and> check_at tokens k = Some e
          \<and> (\<forall>j. i \<le> j \<and> j < k \<longrightarrow> check_at tokens j = None)"
        then obtain k where k: "i \<le> k" "check_at tokens k = Some e"
          "\<forall>j. i \<le> j \<and> j < k \<longrightarrow> check_at tokens j = None" by blast
        have "k = i"
        proof (rule ccontr)
          assume "k \<noteq> i"
          then have "i < k" using k(1) by simp
          then show False using k(3) Some by auto
        qed
        then show "e' = e" using k(2) Some by simp
      next
        assume "e' = e"
        then show "\<exists>k. i \<le> k \<and> k < length tokens \<and> check_at tokens k = Some e
          \<and> (\<forall>j. i \<le> j \<and> j < k \<longrightarrow> check_at tokens j = None)"
          using True Some by (intro exI[of _ i]) auto
      qed
      then show ?thesis using True Some by (subst validate_loop.simps) auto
    next
      case None
      have "(\<exists>k. i \<le> k \<and> k < length tokens \<and> check_at tokens k = Some e
        \<and> (\<forall>j. i \<le> j \<and> j < k \<longrightarrow> check_at tokens j = None)) \<longleftrightarrow>
        (\<exists>k. i + 1 \<le> k \<and> k < length tokens \<and> check_at tokens k = Some e
        \<and> (\<forall>j. i + 1 \<le> j \<and> j < k \<longrightarrow> check_at tokens j = None))" (is "?L \<longleftrightarrow> ?R")
      proof
        assume ?L
        then obtain k where k: "i \<le> k" "k < length tokens" "check_at tokens k = Some e"
          "\<forall>j. i \<le> j \<and> j < k \<longrightarrow> check_at tokens j = None" by blast
        have "k \<noteq> i" using k(3) None by auto
        then have "i + 1 \<le> k" using k(1) by simp
        then show ?R using k by (intro exI[of _ k]) auto
      next
        assume ?R
        then obtain k where k: "i + 1 \<le> k" "k < length tokens" "check_at tokens k = Some e"
          "\<forall>j. i + 1 \<le> j \<and> j < k \<longrightarrow> check_at tokens j = None" by blast
        have "\<forall>j. i \<le> j \<and> j < k \<longrightarrow> check_at tokens j = None"
        proof (intro allI impI)
          fix j assume j: "i \<le> j \<and> j < k"
          show "check_at tokens j = None"
          proof (cases "j = i")
            case True then show ?thesis using None by simp
          next
            case False then show ?thesis using j k(4) by simp
          qed
        qed
        then show ?L using k by (intro exI[of _ k]) auto
      qed
      then show ?thesis using True None "1.IH"[OF True None] by (subst validate_loop.simps) simp
    qed
  qed
qed

lemma check_at_missing:
  "(\<exists>e. check_at tokens k = Some e \<and> kind e = MissingOperator) \<longleftrightarrow> missing_operator_at tokens k"
  by (auto simp: check_at_def missing_operator_at_def Let_def split: if_splits)

lemma missing_operator_at_length:
  "missing_operator_at tokens k \<Longrightarrow> k + 1 < length tokens"
  by (auto simp: missing_operator_at_def at_index_def split: if_splits)

lemmas validator_defs =
  reports_MissingOperator_def missing_operator_at_def spec_missing_operator_at_def
  validate_def validate_loop.simps check_at_def at_index_def

text \<open>
  C1, as the code has it: the validator reports a missing operator exactly when the
  first index at which any of its checks fires holds a variable or a right
  parenthesis that is immediately followed by a variable or a left parenthesis.
  (A left parenthesis followed by a variable or by another left parenthesis is not
  flagged, and an operator-placement error at an earlier index is reported instead.)
\<close>

theorem validator_missing_operator_iff:
  "reports_MissingOperator tokens \<longleftrightarrow>
     (\<exists>i. missing_operator_at tokens i \<and> (\<forall>j<i. check_at tokens j = None))"
proof (cases "tokens = []")
  case True
  then show ?thesis
    by (auto simp: reports_MissingOperator_def validate_def dest: missing_operator_at_length)
next
  case False
  have "reports_MissingOperator tokens \<longleftrightarrow>
      (\<exists>e. validate_loop tokens 0 = Some e \<and> kind e = MissingOperator)"
    using False by (auto simp: reports_MissingOperator_def validate_def split: option.splits)
  also have "\<dots> \<longleftrightarrow> (\<exists>e k. k < length tokens \<and> check_at tokens k = Some e \<and> kind e = MissingOperator
        \<and> (\<forall>j<k. check_at tokens j = None))"
    by (auto simp: validate_loop_Some)
  also have "\<dots> \<longleftrightarrow> (\<exists>i. missing_operator_at tokens i \<and> (\<forall>j<i. check_at tokens j = None))"
    (is "?L \<longleftrightarrow> ?R")
  proof
    assume ?L
    then show ?R using check_at_missing by blast
  next
    assume ?R
    then obtain i where i: "missing_operator_at tokens i" "\<forall>j<i. check_at tokens j = None"
      by blast
    obtain e where "check_at tokens i = Some e" "kind e = MissingOperator"
      using i(1) check_at_missing by blast
    moreover have "i < length tokens" using missing_operator_at_length[OF i(1)] by simp
    ultimately show ?L using i(2) by blast
  qed
  finally show ?thesis .
qed

theorem validator_missing_operator_witness:
  "missing_operator_at [OP OpNot, VAR A, VAR B] 1
   \<and> check_at [OP OpNot, VAR A, VAR B] 0 = None
   \<and> reports_MissingOperator [OP OpNot, VAR A, VAR B]"
proof -
  have m: "missing_operator_at [OP OpNot, VAR A, VAR B] 1"
    by (simp add: validator_defs)
  have c: "check_at [OP OpNot, VAR A, VAR B] 0 = None"
    by (simp add: validator_defs)
  have "\<exists>i. missing_operator_at [OP OpNot, VAR A, VAR B] i
          \<and> (\<forall>j<i. check_at [OP OpNot, VAR A, VAR B] j = None)"
    using m c by (intro exI[of _ 1]) simp
  then have "reports_MissingOperator [OP OpNot, VAR A, VAR B]"
    using validator_missing_operator_iff[of "[OP OpNot, VAR A, VAR B]"] by blast
  then show ?thesis using m c by simp
qed

text \<open>
  C1 as stated fails twice. In \<open>( A )\<close> a left parenthesis is immediately followed
  by a variable, and the validator raises nothing. In \<open>&& A B\<close> a variable is
  immediately followed by a variable, and the validator reports the binary operator
  at index 0 instead.
\<close>

theorem validator_missing_operator_counterexample:
  "(spec_missing_operator_at [LPAREN, VAR A, RPAREN] 0
      \<and> \<not> reports_MissingOperator [LPAREN, VAR A, RPAREN]
      \<and> validate [LPAREN, VAR A, RPAREN] = None)
   \<and> (spec_missing_operator_at [OP OpAnd, VAR A, VAR B] 1
      \<and> \<not> reports_MissingOperator [OP OpAnd, VAR A, VAR B]
      \<and> validate [OP OpAnd, VAR A, VAR B] = Some BinaryNeedsOperands)"
  by (simp add: validator_defs)

section \<open>The truth table\<close>

subsection \<open>The loop as a map over the masks\<close>

lemma truthTable_loop_map:
  "truthTable_loop tokens vars msk totl rows =
     rows @ map (table_row tokens vars) [msk..<nat totl]"
proof (induction tokens vars msk totl rows rule: truthTable_loop.induct)
  case (1 tokens vars msk totl rows)
  show ?case
  proof (cases "int msk < totl")
    case False
    then show ?thesis by (subst truthTable_loop.simps) simp
  next
    case True
    then have upt: "[msk..<nat totl] = msk # [msk + 1..<nat totl]"
      by (simp add: upt_conv_Cons)
    show ?thesis
    proof (cases "safeEvaluate tokens (build_assignment vars msk)")
      case (Inl e)
      then show ?thesis
        using True "1.IH"(1)[OF True Inl] upt
        by (subst truthTable_loop.simps) (simp add: table_row_def result_cell_def)
    next
      case (Inr val)
      then show ?thesis
        using True "1.IH"(2)[OF True Inr] upt
        by (subst truthTable_loop.simps) (simp add: table_row_def result_cell_def)
    qed
  qed
qed

subsection \<open>The 32-bit operations on the masks that occur\<close>

text \<open>
  At most three variables are used, so a mask is below 8 and a shift count below 3:
  the 32-bit operations never wrap, and the tested bit is the bit of the natural
  number.
\<close>

lemma js_shl_small: "n \<le> 3 \<Longrightarrow> js_shl 1 n = 2 ^ n"
proof -
  assume "n \<le> 3"
  then consider "n = 0" | "n = 1" | "n = 2" | "n = 3" by linarith
  then show ?thesis by cases (simp_all add: js_shl_def)
qed



lemma below_8_cases:
  assumes "(msk::nat) < 8"
  obtains "msk = 0" | "msk = 1" | "msk = 2" | "msk = 3" | "msk = 4" | "msk = 5" | "msk = 6" | "msk = 7"
  using assms by linarith

lemma js_bit_0: "msk < 8 \<Longrightarrow> (js_and (js_sar (int msk) 0) 1 \<noteq> 0) = bit msk 0"
  by (erule below_8_cases) (simp_all add: js_sar_def js_and_def bit_iff_odd)

lemma js_bit_1: "msk < 8 \<Longrightarrow> (js_and (js_sar (int msk) (Suc 0)) 1 \<noteq> 0) = bit msk (Suc 0)"
  by (erule below_8_cases) (simp_all add: js_sar_def js_and_def bit_iff_odd)

lemma js_bit_2: "msk < 8 \<Longrightarrow> (js_and (js_sar (int msk) 2) 1 \<noteq> 0) = bit msk 2"
  by (erule below_8_cases) (simp_all add: js_sar_def js_and_def bit_iff_odd)

lemma js_bit_small:
  assumes "msk < 8" "k < 3"
  shows "(js_and (js_sar (int msk) k) 1 \<noteq> 0) = bit msk k"
proof -
  from assms(2) consider "k = 0" | "k = 1" | "k = 2" by linarith
  then show ?thesis
    using assms(1) by cases (simp_all add: js_bit_0 js_bit_1 js_bit_2)
qed



subsection \<open>The used variables\<close>

lemma collect_set:
  "set (fold (\<lambda>t s. case t of VAR v \<Rightarrow> if v \<in> set [A, B, C] then set_add s v else s | _ \<Rightarrow> s) ts s)
     = set s \<union> {v \<in> {A, B, C}. VAR v \<in> set ts}"
  by (induction ts arbitrary: s) (auto simp: set_add_def split: token.splits)

lemma collect_distinct:
  "distinct s \<Longrightarrow>
   distinct (fold (\<lambda>t s. case t of VAR v \<Rightarrow> if v \<in> set [A, B, C] then set_add s v else s | _ \<Rightarrow> s) ts s)"
  by (induction ts arbitrary: s) (auto simp: set_add_def split: token.splits)

lemma usedVars_set: "set (usedVars tokens) = {v \<in> {A, B, C}. VAR v \<in> set tokens}"
  by (simp add: usedVars_def collect_set)

lemma usedVars_distinct: "distinct (usedVars tokens)"
  by (simp add: usedVars_def collect_distinct)

lemma usedVars_length: "length (usedVars tokens) = card {v \<in> {A, B, C}. VAR v \<in> set tokens}"
  using distinct_card[OF usedVars_distinct, of tokens] by (simp add: usedVars_set)

lemma usedVars_length_le: "length (usedVars tokens) \<le> 3"
proof -
  have "card {v \<in> {A, B, C}. VAR v \<in> set tokens} \<le> card {A, B, C}"
    by (rule card_mono) auto
  then show ?thesis by (simp add: usedVars_length)
qed

subsection \<open>The assignment of a mask\<close>

lemma fold_upd_other:
  "v \<notin> set vs \<Longrightarrow>
   fold (\<lambda>(i, w) a. a(w \<mapsto> f i)) (enumerate k vs) a0 v = a0 v"
  by (induction vs arbitrary: k a0) auto

lemma fold_upd_nth:
  "distinct vs \<Longrightarrow> j < length vs \<Longrightarrow>
   fold (\<lambda>(i, w) a. a(w \<mapsto> f i)) (enumerate k vs) a0 (vs ! j) = Some (f (k + j))"
proof (induction vs arbitrary: k a0 j)
  case Nil
  then show ?case by simp
next
  case (Cons x xs)
  show ?case
  proof (cases j)
    case 0
    have "x \<notin> set xs" using Cons.prems by simp
    from fold_upd_other[OF this, of f "Suc k" "a0(x \<mapsto> f k)"]
    show ?thesis using 0 by (simp del: fun_upd_apply) simp
  next
    case (Suc j')
    then show ?thesis using Cons.prems Cons.IH[of j' "Suc k"] by simp
  qed
qed

lemma build_assignment_other:
  "v \<notin> set vars \<Longrightarrow> build_assignment vars msk v = [A \<mapsto> False, B \<mapsto> False, C \<mapsto> False] v"
  unfolding build_assignment_def Let_def by (rule fold_upd_other)

lemma build_assignment_nth:
  assumes "distinct vars" "length vars \<le> 3" "msk < 2 ^ length vars" "j < length vars"
  shows "build_assignment vars msk (vars ! j) = Some (bit msk (length vars - 1 - j))"
proof -
  have "(2::nat) ^ length vars \<le> 2 ^ 3"
    using assms(2) by (intro power_increasing) auto
  then have m: "msk < 8" using assms(3) by simp
  have k: "length vars - 1 - j < 3" using assms(2,4) by simp
  have "build_assignment vars msk (vars ! j) =
      Some (js_and (js_sar (int msk) (length vars - 1 - (0 + j))) 1 \<noteq> 0)"
    unfolding build_assignment_def Let_def
    using fold_upd_nth[OF assms(1,4), of "\<lambda>i. js_and (js_sar (int msk) (length vars - 1 - i)) 1 \<noteq> 0" 0]
    by simp
  then show ?thesis using js_bit_small[OF m k] by simp
qed



subsection \<open>Rows and their assignments\<close>

lemma truthTable_eq:
  "truthTable True tokens =
     (if usedVars tokens = [] then []
      else map (table_row tokens (usedVars tokens)) [0..<2 ^ length (usedVars tokens)])"
proof -
  have "nat (js_shl 1 (length (usedVars tokens))) = nat (2 ^ length (usedVars tokens))"
    using js_shl_small[OF usedVars_length_le, of tokens] by simp
  also have "\<dots> = 2 ^ length (usedVars tokens)"
    by (simp add: nat_power_eq)
  finally have totl: "nat (js_shl 1 (length (usedVars tokens))) = 2 ^ length (usedVars tokens)" .
  show ?thesis
    unfolding truthTable_def Let_def truthTable_loop_map totl by simp
qed

lemma small_nat_no_high_bit:
  fixes m :: nat
  assumes "m < 2 ^ n" "n \<le> k"
  shows "\<not> bit m k"
proof -
  have "(2::nat) ^ n \<le> 2 ^ k" using assms(2) by (intro power_increasing) auto
  then have "m < 2 ^ k" using assms(1) by linarith
  then have "m div 2 ^ k = 0" by (rule div_less)
  then show ?thesis by (simp add: bit_iff_odd)
qed

lemma build_assignment_inj:
  assumes "distinct vars" "length vars \<le> 3"
    and "m1 < 2 ^ length vars" "m2 < 2 ^ length vars"
    and eq: "build_assignment vars m1 = build_assignment vars m2"
  shows "m1 = m2"
proof -
  have "bit m1 k = bit m2 k" for k
  proof (cases "k < length vars")
    case True
    define j where "j = length vars - 1 - k"
    have j: "j < length vars" "length vars - 1 - j = k" using True by (auto simp: j_def)
    have "Some (bit m1 k) = build_assignment vars m1 (vars ! j)"
      using build_assignment_nth[OF assms(1,2,3) j(1)] j(2) by simp
    also have "\<dots> = Some (bit m2 k)"
      using build_assignment_nth[OF assms(1,2,4) j(1)] j(2) eq by simp
    finally show ?thesis by simp
  next
    case False
    then show ?thesis
      using small_nat_no_high_bit[OF assms(3), of k] small_nat_no_high_bit[OF assms(4), of k]
      by simp
  qed
  then show ?thesis by (simp add: bit_eq_iff)
qed

lemma truthTable_assignments_distinct: "distinct (map assignment (truthTable True tokens))"
proof (cases "usedVars tokens = []")
  case True
  then show ?thesis by (simp add: truthTable_eq)
next
  case False
  have "inj_on (build_assignment (usedVars tokens)) (set [0..<2 ^ length (usedVars tokens)])"
    by (rule inj_onI) (auto intro: build_assignment_inj[OF usedVars_distinct usedVars_length_le])
  then have "distinct (map (build_assignment (usedVars tokens)) [0..<2 ^ length (usedVars tokens)])"
    by (simp add: distinct_map)
  moreover have "map assignment (truthTable True tokens) =
      map (build_assignment (usedVars tokens)) [0..<2 ^ length (usedVars tokens)]"
    using False by (simp add: truthTable_eq table_row_def comp_def)
  ultimately show ?thesis by simp
qed

text \<open>
  C7: when \<open>k\<close> distinct variables among \<open>A\<close>, \<open>B\<close>,
  \<open>C\<close> occur in the token sequence, the truth table is empty if \<open>k = 0\<close> and
  has exactly \<open>2 ^ k\<close> rows otherwise, and the assignments of its rows are pairwise
  distinct.
\<close>

theorem truthTable_row_count:
  "(if card {v \<in> {A, B, C}. VAR v \<in> set tokens} = 0
    then truthTable True tokens = []
    else length (truthTable True tokens) = 2 ^ card {v \<in> {A, B, C}. VAR v \<in> set tokens})
   \<and> distinct (map assignment (truthTable True tokens))"
proof -
  have "usedVars tokens = [] \<longleftrightarrow> length (usedVars tokens) = 0"
    by simp
  then have "usedVars tokens = [] \<longleftrightarrow> card {v \<in> {A, B, C}. VAR v \<in> set tokens} = 0"
    by (simp only: usedVars_length)
  then show ?thesis
    using truthTable_assignments_distinct[of tokens] usedVars_length[of tokens]
    by (simp add: truthTable_eq)
qed

lemmas table_defs =
  usedVars_def set_add_def truthTable_def truthTable_loop.simps build_assignment_def
  js_shl_def js_sar_def js_and_def table_row_def result_cell_def

text \<open>
  A sequence without \<open>A\<close>, \<open>B\<close>, \<open>C\<close>: the table has no row. A table
  that is not shown is empty whatever the tokens.
\<close>

lemma truthTable_no_variables:
  "usedVars [VAR TRUE] = [] \<and> truthTable True [VAR TRUE] = []"
  by (simp add: table_defs)

lemma truthTable_hidden: "truthTable False tokens = []"
  by (simp add: truthTable_def)

subsection \<open>One variable\<close>

lemma usedVars_only_A:
  assumes "{v \<in> {A, B, C}. VAR v \<in> set tokens} = {A}"
  shows "usedVars tokens = [A]"
proof -
  have s: "set (usedVars tokens) = {A}" using assms by (simp only: usedVars_set)
  have "length (usedVars tokens) = 1"
    using distinct_card[OF usedVars_distinct, of tokens] s by simp
  then obtain x where "usedVars tokens = [x]"
    by (cases "usedVars tokens") auto
  then show ?thesis using s by simp
qed

lemma build_assignment_A_0:
  "build_assignment [A] 0 = [A \<mapsto> False, B \<mapsto> False, C \<mapsto> False]"
  by (rule ext) (simp add: build_assignment_def js_sar_def js_and_def)

lemma build_assignment_A_1:
  "build_assignment [A] 1 = [A \<mapsto> True, B \<mapsto> False, C \<mapsto> False]"
  by (rule ext) (simp add: build_assignment_def js_sar_def js_and_def)

text \<open>
  C2, as the code has it: when \<open>A\<close> is the only one of \<open>A\<close>, \<open>B\<close>, \<open>C\<close>
  in the token sequence, the truth table has exactly two rows, first the row with
  \<open>A\<close> false (mask 0) and then the row with \<open>A\<close> true (mask 1), each with
  the result of the pipeline under its assignment.
\<close>

theorem truthTable_single_A:
  assumes "{v \<in> {A, B, C}. VAR v \<in> set tokens} = {A}"
  shows "truthTable True tokens =
    [\<lparr>assignment = [A \<mapsto> False, B \<mapsto> False, C \<mapsto> False],
      RESULT = result_cell (safeEvaluate tokens [A \<mapsto> False, B \<mapsto> False, C \<mapsto> False])\<rparr>,
     \<lparr>assignment = [A \<mapsto> True, B \<mapsto> False, C \<mapsto> False],
      RESULT = result_cell (safeEvaluate tokens [A \<mapsto> True, B \<mapsto> False, C \<mapsto> False])\<rparr>]"
proof -
  have "[0..<2 ^ length [A]] = [0, 1]"
    by (simp add: upt_conv_Cons)
  then have "truthTable True tokens = [table_row tokens [A] 0, table_row tokens [A] 1]"
    using usedVars_only_A[OF assms] by (simp add: truthTable_eq)
  then show ?thesis
    by (simp only: table_row_def build_assignment_A_0 build_assignment_A_1)
qed

theorem truthTable_single_A_witness:
  "{v \<in> {A, B, C}. VAR v \<in> set [OP OpNot, VAR A]} = {A}
   \<and> truthTable True [OP OpNot, VAR A] =
    [\<lparr>assignment = [A \<mapsto> False, B \<mapsto> False, C \<mapsto> False], RESULT = Val True\<rparr>,
     \<lparr>assignment = [A \<mapsto> True, B \<mapsto> False, C \<mapsto> False], RESULT = Val False\<rparr>]"
proof -
  have h: "{v \<in> {A, B, C}. VAR v \<in> set [OP OpNot, VAR A]} = {A}"
    by auto
  have f: "safeEvaluate [OP OpNot, VAR A] [A \<mapsto> False, B \<mapsto> False, C \<mapsto> False] = Inr True"
    by (simp add: pipeline_defs)
  have t: "safeEvaluate [OP OpNot, VAR A] [A \<mapsto> True, B \<mapsto> False, C \<mapsto> False] = Inr False"
    by (simp add: pipeline_defs)
  show ?thesis
    using h truthTable_single_A[OF h] by (simp add: f t result_cell_def)
qed

text \<open>
  C2 as stated fails: in the table of the sequence \<open>A\<close> the first row has
  \<open>A\<close> false and the second has \<open>A\<close> true.
\<close>

theorem truthTable_single_A_counterexample:
  "usedVars [VAR A] = [A]
   \<and> length (truthTable True [VAR A]) = 2
   \<and> assignment (truthTable True [VAR A] ! 0) A = Some False
   \<and> RESULT (truthTable True [VAR A] ! 0) = Val False
   \<and> assignment (truthTable True [VAR A] ! 1) A = Some True
   \<and> RESULT (truthTable True [VAR A] ! 1) = Val True"
  by (simp add: table_defs pipeline_defs)

subsection \<open>Failing assignments\<close>

text \<open>Whether and how the pipeline fails does not depend on the environment.\<close>

lemma evalRPN_loop_error_env:
  "evalRPN_loop rpn st env = Inl e \<Longrightarrow> length st' = length st \<Longrightarrow>
   evalRPN_loop rpn st' env' = Inl e"
proof (induction rpn arbitrary: st st')
  case Nil
  then show ?case by (cases st; cases st') (auto split: list.splits)
next
  case (Cons t rpn)
  show ?case
  proof (cases t)
    case (VAR v)
    then show ?thesis
      using Cons.prems Cons.IH[of "True # st" "True # st'"] Cons.IH[of "False # st" "False # st'"]
        Cons.IH[of "lookup env v # st" "lookup env' v # st'"]
        Cons.IH[of "True # st" "lookup env' v # st'"]
        Cons.IH[of "False # st" "lookup env' v # st'"]
      by (auto split: if_splits)
  next
    case (OP x)
    show ?thesis
    proof (cases x)
      case OpNot
      then show ?thesis
        using OP Cons.prems Cons.IH
        by (cases st; cases st') auto
    next
      case OpAnd
      then show ?thesis
        using OP Cons.prems Cons.IH
        by (cases st; cases st'; cases "tl st"; cases "tl st'") auto
    next
      case OpOr
      then show ?thesis
        using OP Cons.prems Cons.IH
        by (cases st; cases st'; cases "tl st"; cases "tl st'") auto
    qed
  next
    case LPAREN
    then show ?thesis using Cons.prems by simp
  next
    case RPAREN
    then show ?thesis using Cons.prems by simp
  qed
qed

lemma safeEvaluate_error_env:
  "safeEvaluate tokens env = Inl e \<Longrightarrow> safeEvaluate tokens env' = Inl e"
  by (auto simp: safeEvaluate_def evalRPN_def split: option.splits sum.splits
      dest: evalRPN_loop_error_env[where st' = "[]" and env' = env'])

text \<open>
  C9: the table is the list of the rows of all masks in ascending order, whatever
  the pipeline returns; a mask whose assignment makes the pipeline fail has the row
  with that assignment and the dash; and when the pipeline fails under some
  environment, the table still has one row per assignment (\<open>2 ^ n\<close> rows for
  \<open>n > 0\<close> used variables) and every row holds its assignment and the dash.
\<close>

theorem truthTable_failure_rows:
  "truthTable True tokens =
     (if usedVars tokens = [] then []
      else map (table_row tokens (usedVars tokens)) [0..<2 ^ length (usedVars tokens)])
   \<and> (\<forall>msk < length (truthTable True tokens). \<forall>e.
         safeEvaluate tokens (build_assignment (usedVars tokens) msk) = Inl e \<longrightarrow>
         truthTable True tokens ! msk =
           \<lparr>assignment = build_assignment (usedVars tokens) msk, RESULT = Dash\<rparr>)
   \<and> (\<forall>env e. safeEvaluate tokens env = Inl e \<longrightarrow>
         length (truthTable True tokens) =
           (if usedVars tokens = [] then 0 else 2 ^ length (usedVars tokens))
         \<and> (\<forall>msk < length (truthTable True tokens).
               truthTable True tokens ! msk =
                 \<lparr>assignment = build_assignment (usedVars tokens) msk, RESULT = Dash\<rparr>))"
proof (intro conjI allI impI)
  show eq: "truthTable True tokens =
     (if usedVars tokens = [] then []
      else map (table_row tokens (usedVars tokens)) [0..<2 ^ length (usedVars tokens)])"
    by (rule truthTable_eq)
  have row: "truthTable True tokens ! msk = table_row tokens (usedVars tokens) msk"
    if "msk < length (truthTable True tokens)" for msk
    using that by (cases "usedVars tokens = []") (simp_all add: truthTable_eq)
  show "truthTable True tokens ! msk =
      \<lparr>assignment = build_assignment (usedVars tokens) msk, RESULT = Dash\<rparr>"
    if "msk < length (truthTable True tokens)"
      and "safeEvaluate tokens (build_assignment (usedVars tokens) msk) = Inl e" for msk e
    using row[OF that(1)] that(2) by (simp add: table_row_def result_cell_def)
  show "length (truthTable True tokens) =
      (if usedVars tokens = [] then 0 else 2 ^ length (usedVars tokens))"
    if "safeEvaluate tokens env = Inl e" for env e
    by (simp add: truthTable_eq)
  show "truthTable True tokens ! msk =
      \<lparr>assignment = build_assignment (usedVars tokens) msk, RESULT = Dash\<rparr>"
    if "safeEvaluate tokens env = Inl e" and "msk < length (truthTable True tokens)" for env e msk
    using row[OF that(2)] safeEvaluate_error_env[OF that(1), of "build_assignment (usedVars tokens) msk"]
    by (simp add: table_row_def result_cell_def)
qed

theorem truthTable_failure_rows_witness:
  "safeEvaluate [VAR A, VAR B] Map.empty = Inl MissingOperatorBetweenOperands
   \<and> length (truthTable True [VAR A, VAR B]) = 4
   \<and> map RESULT (truthTable True [VAR A, VAR B]) = [Dash, Dash, Dash, Dash]
   \<and> truthTable True [VAR A, VAR B] ! 2 =
       \<lparr>assignment = build_assignment [A, B] 2, RESULT = Dash\<rparr>"
proof -
  have f: "safeEvaluate [VAR A, VAR B] Map.empty = Inl MissingOperatorBetweenOperands"
    by (simp add: pipeline_defs)
  have u: "usedVars [VAR A, VAR B] = [A, B]"
    by (simp add: usedVars_def set_add_def)
  from truthTable_failure_rows[of "[VAR A, VAR B]"] f
  have len: "length (truthTable True [VAR A, VAR B]) = 4"
    and rows: "\<forall>msk < length (truthTable True [VAR A, VAR B]).
       truthTable True [VAR A, VAR B] ! msk =
         \<lparr>assignment = build_assignment [A, B] msk, RESULT = Dash\<rparr>"
    unfolding u by auto
  have "map RESULT (truthTable True [VAR A, VAR B]) = replicate 4 Dash"
    using len rows by (intro nth_equalityI) auto
  then have "map RESULT (truthTable True [VAR A, VAR B]) = [Dash, Dash, Dash, Dash]"
    by (simp add: numeral_eq_Suc)
  moreover have "truthTable True [VAR A, VAR B] ! 2 =
       \<lparr>assignment = build_assignment [A, B] 2, RESULT = Dash\<rparr>"
    using len rows by simp
  ultimately show ?thesis using f len by simp
qed

end
